theory Spec2Isabelle
  imports Main
begin

section \<open>Campus event management: registration and capacity\<close>

text \<open>
  The development embeds the web backend (\<^verbatim>\<open>backend/models\<close> and
  \<^verbatim>\<open>backend/services\<close>): the three model classes, their dictionary
  serialisation, and the registration service working on the two JSON collections
  \<^verbatim>\<open>data/events.json\<close> and \<^verbatim>\<open>data/registrations.json\<close>.

  Where two classes have an attribute of the same name (\<open>status\<close>, \<open>event_id\<close>,
  \<open>updated_at\<close>, ...) the record fields are written with their class:
  \<open>Registration.status\<close>, \<open>Event.status\<close>. The attribute \<^verbatim>\<open>notes\<close> of a registration is
  the field \<open>notes_text\<close>.
\<close>

subsection \<open>Python values\<close>










text \<open>
  The wall clock of one service call: \<open>now_iso\<close> is \<^verbatim>\<open>datetime.now().isoformat()\<close>,
  \<open>now\<close> the same instant on a time line, and \<open>fromisoformat d\<close> the instant that
  \<^verbatim>\<open>datetime.fromisoformat(d)\<close> denotes, \<open>None\<close> when parsing \<open>d\<close> or comparing the
  result with \<^verbatim>\<open>datetime.now()\<close> raises. The readings of the clock within one call are
  modelled by one reading.
\<close>

record clock =
  now_iso :: string
  now :: int
  fromisoformat :: "string \<Rightarrow> int option"

subsection \<open>models/user.py\<close>

datatype UserRole = ADMIN | ORGANIZER | STUDENT | VISITOR

record User =
  user_id :: string
  username :: string
  email :: string
  password :: string
  role :: UserRole
  full_name :: string
  created_at :: string
  last_login :: "string option"
  is_active :: bool

text \<open>The table \<^verbatim>\<open>permissions\<close> inside \<^verbatim>\<open>has_permission\<close>.\<close>

fun permissions :: "UserRole \<Rightarrow> string list" where
  "permissions ADMIN =
     [''create_event'', ''update_event'', ''delete_event'',
      ''view_all_events'', ''view_all_users'', ''generate_reports'']"
| "permissions ORGANIZER =
     [''create_event'', ''update_own_event'', ''delete_own_event'',
      ''view_own_events'', ''manage_registrations'']"
| "permissions STUDENT = [''view_events'', ''register_event'', ''view_own_registrations'']"
| "permissions VISITOR = [''view_events'', ''register_event'']"

definition has_permission :: "User \<Rightarrow> string \<Rightarrow> bool" where
  "has_permission u action = (action \<in> set (permissions (role u)))"

subsection \<open>models/registration.py\<close>

datatype RegistrationStatus = PENDING | CONFIRMED | CANCELLED | ATTENDED | NO_SHOW



record Registration =
  registration_id :: string
  event_id :: string
  user_id :: string
  status :: RegistrationStatus
  registered_at :: string
  updated_at :: string
  notes_text :: string

text \<open>\<^verbatim>\<open>Registration.__init__\<close>; the last argument is the clock reading.\<close>

definition Registration_init :: "string \<Rightarrow> string \<Rightarrow> string \<Rightarrow> string \<Rightarrow> Registration" where
  "Registration_init rid eid uid t =
     \<lparr>registration_id = rid, event_id = eid, user_id = uid, status = CONFIRMED,
      registered_at = t, updated_at = t, notes_text = ''''\<rparr>"



definition confirm :: "Registration \<Rightarrow> string \<Rightarrow> Registration" where
  "confirm r t = r\<lparr>Registration.status := CONFIRMED, Registration.updated_at := t\<rparr>"

definition cancel :: "Registration \<Rightarrow> string \<Rightarrow> string \<Rightarrow> Registration" where
  "cancel r reason t =
     r\<lparr>Registration.status := RegistrationStatus.CANCELLED, notes_text := reason,
       Registration.updated_at := t\<rparr>"

definition mark_attended :: "Registration \<Rightarrow> string \<Rightarrow> Registration" where
  "mark_attended r t = r\<lparr>Registration.status := ATTENDED, Registration.updated_at := t\<rparr>"

definition mark_no_show :: "Registration \<Rightarrow> string \<Rightarrow> Registration" where
  "mark_no_show r t = r\<lparr>Registration.status := NO_SHOW, Registration.updated_at := t\<rparr>"

definition is_active :: "Registration \<Rightarrow> bool" where
  "is_active r = (Registration.status r \<in> set [PENDING, CONFIRMED])"

subsection \<open>models/event.py\<close>

datatype EventStatus = DRAFT | ACTIVE | CANCELLED | COMPLETED

datatype EventCategory = ACADEMIC | CULTURAL | SPORTS | WORKSHOP | SEMINAR | COMPETITION | OTHER





record Event =
  event_id :: string
  title :: string
  description :: string
  organizer_id :: string
  event_date :: string
  location :: string
  max_capacity :: int
  category :: EventCategory
  status :: EventStatus
  created_at :: string
  updated_at :: string
  current_attendees :: int
  tags :: "string list"

definition Event_init ::
  "string \<Rightarrow> string \<Rightarrow> string \<Rightarrow> string \<Rightarrow> string \<Rightarrow> string \<Rightarrow> int \<Rightarrow> EventCategory \<Rightarrow> string \<Rightarrow> Event" where
  "Event_init eid ti de org da loc cap cat t =
     \<lparr>event_id = eid, title = ti, description = de, organizer_id = org, event_date = da,
      location = loc, max_capacity = cap, category = cat, status = ACTIVE,
      created_at = t, updated_at = t, current_attendees = 0, tags = []\<rparr>"



text \<open>
  \<^verbatim>\<open>is_available_for_registration\<close>: the bare \<^verbatim>\<open>except\<close> answers \<open>True\<close> whenever
  parsing the date or comparing it with the clock raises.
\<close>

definition is_available_for_registration :: "clock \<Rightarrow> Event \<Rightarrow> bool" where
  "is_available_for_registration clk e =
     (if Event.status e \<noteq> ACTIVE then False
      else if current_attendees e \<ge> max_capacity e then False
      else (case fromisoformat clk (event_date e) of
              Some event_datetime \<Rightarrow> event_datetime > now clk
            | None \<Rightarrow> True))"

text \<open>The two mutators return the changed event with the boolean the method returns.\<close>

definition add_attendee :: "clock \<Rightarrow> Event \<Rightarrow> Event \<times> bool" where
  "add_attendee clk e =
     (if current_attendees e < max_capacity e
      then (e\<lparr>current_attendees := current_attendees e + 1, Event.updated_at := now_iso clk\<rparr>, True)
      else (e, False))"

definition remove_attendee :: "clock \<Rightarrow> Event \<Rightarrow> Event \<times> bool" where
  "remove_attendee clk e =
     (if current_attendees e > 0
      then (e\<lparr>current_attendees := current_attendees e - 1, Event.updated_at := now_iso clk\<rparr>, True)
      else (e, False))"

definition is_full :: "Event \<Rightarrow> bool" where
  "is_full e = (current_attendees e \<ge> max_capacity e)"

subsection \<open>The stored collections\<close>

text \<open>
  The two JSON files hold the \<^verbatim>\<open>to_dict\<close> images of the objects, in file order. Every
  service method loads a whole file, works on the objects \<^verbatim>\<open>from_dict\<close> builds, and
  writes the whole file back; the store keeps the objects themselves, in file order.
\<close>

record store =
  events :: "Event list"
  registrations :: "Registration list"

subsection \<open>services/event_service.py\<close>

definition get_event_by_id :: "store \<Rightarrow> string \<Rightarrow> Event option" where
  "get_event_by_id s eid = find (\<lambda>event_data. Event.event_id event_data = eid) (events s)"

text \<open>\<^verbatim>\<open>_save_event\<close>: the loop overwrites the first entry of the same id and breaks.\<close>

fun save_event_loop :: "Event \<Rightarrow> Event list \<Rightarrow> Event list" where
  "save_event_loop event [] = []"
| "save_event_loop event (event_data # rest) =
     (if Event.event_id event_data = Event.event_id event then event # rest
      else event_data # save_event_loop event rest)"

definition save_event :: "store \<Rightarrow> Event \<Rightarrow> store" where
  "save_event s event = s\<lparr>events := save_event_loop event (events s)\<rparr>"

subsection \<open>services/registration_service.py\<close>

text \<open>
  The outcome of a service call is the dictionary's \<^verbatim>\<open>success\<close> flag with its message;
  a failure is named after the message it carries: event not found, event not available
  for registration, already registered, event full, registration not found, registration
  already cancelled or invalid.

  Each method wraps its body in \<^verbatim>\<open>try\<close> with a catch-all handler. On the typed store no
  statement of a body raises, so the handlers have no branch here; \<^verbatim>\<open>save_json\<close>, whose
  result the services ignore, is taken to write the file.
\<close>

datatype failure =
  EventNotFound | EventNotAvailable | AlreadyRegistered | EventFull
  | RegistrationNotFound | AlreadyCancelled

definition get_registration :: "store \<Rightarrow> string \<Rightarrow> string \<Rightarrow> Registration option" where
  "get_registration s eid uid =
     find (\<lambda>reg_data. Registration.event_id reg_data = eid \<and> Registration.user_id reg_data = uid)
       (registrations s)"

definition get_event_registrations :: "store \<Rightarrow> string \<Rightarrow> Registration list" where
  "get_event_registrations s eid =
     filter (\<lambda>reg_data. Registration.event_id reg_data = eid) (registrations s)"

fun save_registration_loop :: "Registration \<Rightarrow> Registration list \<Rightarrow> Registration list" where
  "save_registration_loop registration [] = []"
| "save_registration_loop registration (reg_data # rest) =
     (if registration_id reg_data = registration_id registration then registration # rest
      else reg_data # save_registration_loop registration rest)"

definition save_registration :: "store \<Rightarrow> Registration \<Rightarrow> store" where
  "save_registration s registration =
     s\<lparr>registrations := save_registration_loop registration (registrations s)\<rparr>"

text \<open>
  \<^verbatim>\<open>register_for_event\<close>; \<open>new_id\<close> is the token \<^verbatim>\<open>_generate_registration_id\<close> draws.
\<close>

definition register_for_event ::
  "clock \<Rightarrow> store \<Rightarrow> string \<Rightarrow> string \<Rightarrow> string \<Rightarrow> store \<times> (failure + Registration)" where
  "register_for_event clk s eid uid new_id =
     (case get_event_by_id s eid of
        None \<Rightarrow> (s, Inl EventNotFound)
      | Some event \<Rightarrow>
          if \<not> is_available_for_registration clk event then (s, Inl EventNotAvailable)
          else if (case get_registration s eid uid of
                     None \<Rightarrow> False
                   | Some existing_registration \<Rightarrow> is_active existing_registration)
          then (s, Inl AlreadyRegistered)
          else if is_full event then (s, Inl EventFull)
          else
            let registration = Registration_init new_id eid uid (now_iso clk);
                s1 = s\<lparr>registrations := registrations s @ [registration]\<rparr>;
                event' = fst (add_attendee clk event)
            in (save_event s1 event', Inr registration))"

definition cancel_registration ::
  "clock \<Rightarrow> store \<Rightarrow> string \<Rightarrow> string \<Rightarrow> string \<Rightarrow> store \<times> (failure + unit)" where
  "cancel_registration clk s eid uid reason =
     (case get_registration s eid uid of
        None \<Rightarrow> (s, Inl RegistrationNotFound)
      | Some registration \<Rightarrow>
          if \<not> is_active registration then (s, Inl AlreadyCancelled)
          else
            let s1 = save_registration s (cancel registration reason (now_iso clk))
            in (case get_event_by_id s1 eid of
                  Some event \<Rightarrow> (save_event s1 (fst (remove_attendee clk event)), Inr ())
                | None \<Rightarrow> (s1, Inr ())))"

text \<open>
  \<^verbatim>\<open>mark_attendance\<close>: the first entry with the id is rebuilt, marked and written back
  in its place.
\<close>

fun mark_attendance_loop :: "clock \<Rightarrow> string \<Rightarrow> bool \<Rightarrow> Registration list \<Rightarrow> Registration list option" where
  "mark_attendance_loop clk rid attended [] = None"
| "mark_attendance_loop clk rid attended (reg_data # rest) =
     (if registration_id reg_data = rid
      then Some ((if attended then mark_attended reg_data (now_iso clk)
                  else mark_no_show reg_data (now_iso clk)) # rest)
      else map_option ((#) reg_data) (mark_attendance_loop clk rid attended rest))"

definition mark_attendance :: "clock \<Rightarrow> store \<Rightarrow> string \<Rightarrow> bool \<Rightarrow> store \<times> (failure + unit)" where
  "mark_attendance clk s rid attended =
     (case mark_attendance_loop clk rid attended (registrations s) of
        Some registrations_data \<Rightarrow> (s\<lparr>registrations := registrations_data\<rparr>, Inr ())
      | None \<Rightarrow> (s, Inl RegistrationNotFound))"

text \<open>
  \<^verbatim>\<open>bulk_cancel_event_registrations\<close>: the loop walks the list fetched at the start and
  saves each cancelled registration through \<^verbatim>\<open>_save_registration\<close>, which reloads the
  file.
\<close>

fun bulk_cancel_loop :: "clock \<Rightarrow> string \<Rightarrow> Registration list \<Rightarrow> store \<times> int \<Rightarrow> store \<times> int" where
  "bulk_cancel_loop clk reason [] (s, cancelled_count) = (s, cancelled_count)"
| "bulk_cancel_loop clk reason (registration # rest) (s, cancelled_count) =
     (if is_active registration
      then bulk_cancel_loop clk reason rest
             (save_registration s (cancel registration reason (now_iso clk)), cancelled_count + 1)
      else bulk_cancel_loop clk reason rest (s, cancelled_count))"

definition bulk_cancel_event_registrations :: "clock \<Rightarrow> store \<Rightarrow> string \<Rightarrow> string \<Rightarrow> store \<times> int" where
  "bulk_cancel_event_registrations clk s eid reason =
     bulk_cancel_loop clk reason (get_event_registrations s eid) (s, 0)"

subsection \<open>Sequences of service calls\<close>

datatype operation =
  Register string string string
  | Cancel string string string
  | BulkCancel string string
  | MarkAttendance string bool

fun step :: "clock \<Rightarrow> store \<Rightarrow> operation \<Rightarrow> store" where
  "step clk s (Register eid uid new_id) = fst (register_for_event clk s eid uid new_id)"
| "step clk s (Cancel eid uid reason) = fst (cancel_registration clk s eid uid reason)"
| "step clk s (BulkCancel eid reason) = fst (bulk_cancel_event_registrations clk s eid reason)"
| "step clk s (MarkAttendance rid attended) = fst (mark_attendance clk s rid attended)"

fun run :: "clock \<Rightarrow> store \<Rightarrow> operation list \<Rightarrow> store" where
  "run clk s [] = s"
| "run clk s (op # ops) = run clk (step clk s op) ops"

subsection \<open>Notions of the specification\<close>

text \<open>The active registrations of a user for an event, in file order.\<close>

definition active_registrations :: "store \<Rightarrow> string \<Rightarrow> string \<Rightarrow> Registration list" where
  "active_registrations s eid uid =
     filter (\<lambda>r. Registration.event_id r = eid \<and> Registration.user_id r = uid \<and> is_active r)
       (registrations s)"

text \<open>A terminal status: cancelled, attended or no-show.\<close>

definition is_terminal :: "Registration \<Rightarrow> bool" where
  "is_terminal r =
     (Registration.status r \<in> set [RegistrationStatus.CANCELLED, ATTENDED, NO_SHOW])"

text \<open>The event's date lies strictly after the clock's reading; a date that does not
  parse lies nowhere.\<close>

definition datetime_in_future :: "clock \<Rightarrow> Event \<Rightarrow> bool" where
  "datetime_in_future clk e =
     (case fromisoformat clk (event_date e) of Some t \<Rightarrow> t > now clk | None \<Rightarrow> False)"

text \<open>Registration ids identify the entries of the registrations file.\<close>

definition unique_registration_ids :: "store \<Rightarrow> bool" where
  "unique_registration_ids s = distinct (map registration_id (registrations s))"

subsection \<open>Example data\<close>

text \<open>
  A clock at noon of 1 June 2025, counting seconds from its own reading; of the strings
  used below it parses the date of the example event.
\<close>

definition clk0 :: clock where
  "clk0 = \<lparr>now_iso = ''2025-06-01T12:00:00'', now = 0,
           fromisoformat = (\<lambda>d. if d = ''2030-01-01T09:00:00'' then Some 144709200 else None)\<rparr>"

definition event0 :: Event where
  "event0 = Event_init ''e1'' ''Open day'' ''Campus tour'' ''org1'' ''2030-01-01T09:00:00''
              ''Hall A'' 5 OTHER ''2025-05-01T08:00:00''"

definition store0 :: store where
  "store0 = \<lparr>events = [event0], registrations = []\<rparr>"

definition admin0 :: User where
  "admin0 = \<lparr>User.user_id = ''user_1'', username = ''root'', email = ''root@campus.edu'',
             password = ''x'', role = ADMIN, full_name = ''Admin'',
             User.created_at = ''2025-05-01T08:00:00'', last_login = None,
             User.is_active = True\<rparr>"

definition reg0 :: Registration where
  "reg0 = Registration_init ''reg_a'' ''e1'' ''u1'' ''2025-05-02T08:00:00''"

definition reg0_cancelled :: Registration where
  "reg0_cancelled = cancel reg0 ''changed plans'' ''2025-05-03T08:00:00''"

text \<open>One event with free places, and the user's earlier registration, cancelled.\<close>

definition store_cancelled :: store where
  "store_cancelled = \<lparr>events = [event0], registrations = [reg0_cancelled]\<rparr>"

text \<open>The example event with a date no ISO parser accepts.\<close>

definition event_bad_date :: Event where
  "event_bad_date = event0\<lparr>event_date := ''next friday''\<rparr>"

text \<open>
  Two entries that carry the same registration id, for different events and users.
\<close>

definition reg_x_e2 :: Registration where
  "reg_x_e2 = Registration_init ''reg_x'' ''e2'' ''u1'' ''2025-05-02T08:00:00''"

definition reg_x_e1 :: Registration where
  "reg_x_e1 = Registration_init ''reg_x'' ''e1'' ''u2'' ''2025-05-02T09:00:00''"

definition store_dup :: store where
  "store_dup = \<lparr>events = [event0], registrations = [reg_x_e2, reg_x_e1]\<rparr>"

text \<open>
  Three registrations with ids of their own: the cancelled one of user \<open>u1\<close> for
  \<open>e1\<close>, a confirmed one of user \<open>u2\<close> for \<open>e1\<close>, a confirmed one of \<open>u1\<close> for \<open>e2\<close>.
\<close>

definition reg_b :: Registration where
  "reg_b = Registration_init ''reg_b'' ''e1'' ''u2'' ''2025-05-02T09:00:00''"

definition reg_c :: Registration where
  "reg_c = Registration_init ''reg_c'' ''e2'' ''u1'' ''2025-05-02T10:00:00''"

definition store_three :: store where
  "store_three = \<lparr>events = [event0], registrations = [reg0_cancelled, reg_b, reg_c]\<rparr>"

text \<open>The example event with one place, taken; and with one place, free.\<close>

definition event_full :: Event where
  "event_full = event0\<lparr>max_capacity := 1, current_attendees := 1\<rparr>"

definition store_full :: store where
  "store_full = \<lparr>events = [event_full], registrations = []\<rparr>"

definition event_last_slot :: Event where
  "event_last_slot = event0\<lparr>max_capacity := 1\<rparr>"

definition store_last_slot :: store where
  "store_last_slot = \<lparr>events = [event_last_slot], registrations = [reg0_cancelled]\<rparr>"

text \<open>
  A user who registered, cancelled and registered again, for an event that is no longer in
  the events file.
\<close>

definition reg_again :: Registration where
  "reg_again = Registration_init ''reg_b'' ''e1'' ''u1'' ''2025-05-04T08:00:00''"

definition store_orphan :: store where
  "store_orphan = \<lparr>events = [], registrations = [reg0_cancelled, reg_again]\<rparr>"

section \<open>Properties\<close>

subsection \<open>Auxiliary facts\<close>

lemma find_SomeD: "find P xs = Some x \<Longrightarrow> x \<in> set xs \<and> P x"
  by (induction xs) (auto split: if_splits)






subsection \<open>Serialisation\<close>


subsection \<open>Authorisation\<close>

text \<open>
  Claim C2, as stated, fails: an administrator is refused \<^verbatim>\<open>register_event\<close>, which is
  not in the administrator's row of the permission table.
\<close>

theorem admin_refused_register_event:
  "role admin0 = ADMIN \<and> \<not> has_permission admin0 ''register_event''"
  by (simp add: has_permission_def admin0_def)

text \<open>
  Claim C2, amended. A user whose role is Admin is authorised for exactly the six actions
  of the administrator's row: \<^verbatim>\<open>create_event\<close>, \<^verbatim>\<open>update_event\<close>, \<^verbatim>\<open>delete_event\<close>,
  \<^verbatim>\<open>view_all_events\<close>, \<^verbatim>\<open>view_all_users\<close> and \<^verbatim>\<open>generate_reports\<close>; for every other
  action string \<open>has_permission\<close> returns false.
\<close>

theorem admin_permissions:
  "role u = ADMIN \<Longrightarrow>
   has_permission u action \<longleftrightarrow>
     action \<in> {''create_event'', ''update_event'', ''delete_event'',
               ''view_all_events'', ''view_all_users'', ''generate_reports''}"
  by (simp add: has_permission_def)

theorem admin_permissions_witness:
  "role admin0 = ADMIN \<and> has_permission admin0 ''generate_reports'' \<and>
   \<not> has_permission admin0 ''view_events''"
proof -
  have r: "role admin0 = ADMIN" by (simp add: admin0_def)
  show ?thesis
    using r admin_permissions [OF r, of "''generate_reports''"]
      admin_permissions [OF r, of "''view_events''"] by simp
qed

subsection \<open>Availability of an event\<close>

text \<open>
  Claim C5, as stated, fails on an event whose date does not parse: the event is active
  and has free places, its date is not in the future (it is no date at all), and
  \<open>is_available_for_registration\<close> answers true.
\<close>

theorem unparseable_date_is_available:
  "is_available_for_registration clk0 event_bad_date \<noteq>
     (Event.status event_bad_date = ACTIVE \<and>
      current_attendees event_bad_date < max_capacity event_bad_date \<and>
      datetime_in_future clk0 event_bad_date)"
  by (simp add: is_available_for_registration_def datetime_in_future_def event_bad_date_def
      event0_def Event_init_def clk0_def)

text \<open>
  Claim C5, amended. For every event, \<open>is_available_for_registration\<close> returns true if and
  only if the status is Active, \<open>current_attendees < max_capacity\<close>, and the date either
  lies strictly in the future or cannot be parsed or compared with the clock (such a date
  does not block registration).
\<close>

theorem is_available_for_registration_iff:
  "is_available_for_registration clk e \<longleftrightarrow>
     Event.status e = ACTIVE \<and> current_attendees e < max_capacity e \<and>
     (case fromisoformat clk (event_date e) of Some t \<Rightarrow> t > now clk | None \<Rightarrow> True)"
  by (auto simp add: is_available_for_registration_def split: option.splits)

subsection \<open>Cancelling twice\<close>

text \<open>
  Claim C8. Idempotence of cancellation: whenever the registration fetched for
  \<open>(eid, uid)\<close> is not active (cancelled, attended or no-show), \<open>cancel_registration\<close>
  returns the already-cancelled failure and the store it leaves is the store it found:
  neither the registrations nor any event's \<open>current_attendees\<close> change.
\<close>

theorem cancel_registration_inactive:
  assumes "get_registration s eid uid = Some r" and "\<not> is_active r"
  shows "cancel_registration clk s eid uid reason = (s, Inl AlreadyCancelled)"
  using assms by (simp add: cancel_registration_def)

theorem cancel_registration_inactive_witness:
  "get_registration store_cancelled ''e1'' ''u1'' = Some reg0_cancelled \<and>
   \<not> is_active reg0_cancelled \<and>
   cancel_registration clk0 store_cancelled ''e1'' ''u1'' ''again'' =
     (store_cancelled, Inl AlreadyCancelled)"
proof -
  have g: "get_registration store_cancelled ''e1'' ''u1'' = Some reg0_cancelled"
    by (simp add: get_registration_def store_cancelled_def reg0_cancelled_def reg0_def
        cancel_def Registration_init_def)
  have a: "\<not> is_active reg0_cancelled"
    by (simp add: is_active_def reg0_cancelled_def cancel_def)
  show ?thesis
    using g a cancel_registration_inactive [OF g a, of clk0 "''again''"] by simp
qed

subsection \<open>Writing registrations back\<close>

text \<open>
  In a file whose registration ids are pairwise distinct, \<^verbatim>\<open>_save_registration\<close> changes
  the entry of that id and no other, and the bulk loop cancels the active registrations of
  the event where they stand.
\<close>

lemma save_registration_loop_distinct:
  "distinct (map registration_id regs) \<Longrightarrow>
   save_registration_loop r regs =
     map (\<lambda>x. if registration_id x = registration_id r then r else x) regs"
proof (induction regs)
  case Nil
  then show ?case by simp
next
  case (Cons x xs)
  show ?case
  proof (cases "registration_id x = registration_id r")
    case True
    with Cons.prems have "\<forall>y \<in> set xs. registration_id y \<noteq> registration_id r"
      by (metis distinct.simps(2) image_eqI list.simps(9) set_map)
    then have "map (\<lambda>x. if registration_id x = registration_id r then r else x) xs = xs"
      by (simp add: map_idI)
    with True show ?thesis by simp
  next
    case False
    with Cons show ?thesis by simp
  qed
qed

lemma save_registration_loop_ids:
  "map registration_id (save_registration_loop r regs) = map registration_id regs"
  by (induction regs) auto

lemma registration_id_cancel [simp]: "registration_id (cancel r reason t) = registration_id r"
  by (simp add: cancel_def)

lemma bulk_cancel_loop_map:
  "distinct (map registration_id rs) \<Longrightarrow> distinct (map registration_id (registrations s)) \<Longrightarrow>
   bulk_cancel_loop clk reason rs (s, n) =
     (s\<lparr>registrations :=
          map (\<lambda>x. case find (\<lambda>r. registration_id r = registration_id x \<and> is_active r) rs of
                     Some r \<Rightarrow> cancel r reason (now_iso clk) | None \<Rightarrow> x) (registrations s)\<rparr>,
      n + int (length (filter is_active rs)))"
proof (induction rs arbitrary: s n)
  case Nil
  then show ?case by simp
next
  case (Cons r rs)
  show ?case
  proof (cases "is_active r")
    case False
    with Cons show ?thesis by simp
  next
    case True
    let ?c = "cancel r reason (now_iso clk)"
    let ?s1 = "save_registration s ?c"
    have regs1: "registrations ?s1 =
        map (\<lambda>x. if registration_id x = registration_id r then ?c else x) (registrations s)"
      using Cons.prems(2) by (simp add: save_registration_def save_registration_loop_distinct)
    have d1: "distinct (map registration_id (registrations ?s1))"
      using Cons.prems(2) by (simp add: save_registration_def save_registration_loop_ids)
    have fresh: "find (\<lambda>r'. registration_id r' = registration_id r \<and> is_active r') rs = None"
      using Cons.prems(1) by (simp add: find_None_iff) (metis image_eqI)
    have pointwise: "(case find (\<lambda>r'. registration_id r' = registration_id y \<and> is_active r') rs of
              Some r' \<Rightarrow> cancel r' reason (now_iso clk) | None \<Rightarrow> y) =
          (case find (\<lambda>r'. registration_id r' = registration_id x \<and> is_active r') (r # rs) of
              Some r' \<Rightarrow> cancel r' reason (now_iso clk) | None \<Rightarrow> x)"
      if "y = (if registration_id x = registration_id r then ?c else x)" for x y
      using that True fresh by (cases "registration_id x = registration_id r") auto
    have maps: "map (\<lambda>x. case find (\<lambda>r. registration_id r = registration_id x \<and> is_active r) rs of
                     Some r \<Rightarrow> cancel r reason (now_iso clk) | None \<Rightarrow> x) (registrations ?s1) =
        map (\<lambda>x. case find (\<lambda>r'. registration_id r' = registration_id x \<and> is_active r') (r # rs) of
                     Some r' \<Rightarrow> cancel r' reason (now_iso clk) | None \<Rightarrow> x) (registrations s)"
      unfolding regs1 map_map comp_def by (rule map_cong [OF refl]) (rule pointwise, rule refl)
    have upd: "?s1\<lparr>registrations := X\<rparr> = s\<lparr>registrations := X\<rparr>" for X
      by (simp add: save_registration_def)
    have "bulk_cancel_loop clk reason (r # rs) (s, n) = bulk_cancel_loop clk reason rs (?s1, n + 1)"
      using True by simp
    also have "\<dots> = (?s1\<lparr>registrations :=
          map (\<lambda>x. case find (\<lambda>r. registration_id r = registration_id x \<and> is_active r) rs of
                     Some r \<Rightarrow> cancel r reason (now_iso clk) | None \<Rightarrow> x) (registrations ?s1)\<rparr>,
      n + 1 + int (length (filter is_active rs)))"
      using Cons.IH [OF _ d1] Cons.prems(1) by simp
    finally show ?thesis
      unfolding maps upd using True by simp
  qed
qed

lemma find_own_registration:
  assumes "distinct (map registration_id regs)" and "x \<in> set regs"
  shows "find (\<lambda>r. registration_id r = registration_id x \<and> is_active r)
           (filter (\<lambda>r. Registration.event_id r = eid) regs) =
         (if Registration.event_id x = eid \<and> is_active x then Some x else None)"
proof -
  have inj: "inj_on registration_id (set regs)"
    using assms(1) by (simp add: distinct_map)
  show ?thesis
  proof (cases "Registration.event_id x = eid \<and> is_active x")
    case True
    then have "\<exists>y \<in> set (filter (\<lambda>r. Registration.event_id r = eid) regs).
        registration_id y = registration_id x \<and> is_active y"
      using assms(2) by auto
    then obtain y where y: "find (\<lambda>r. registration_id r = registration_id x \<and> is_active r)
           (filter (\<lambda>r. Registration.event_id r = eid) regs) = Some y"
      by (cases "find (\<lambda>r. registration_id r = registration_id x \<and> is_active r)
           (filter (\<lambda>r. Registration.event_id r = eid) regs)") (auto simp: find_None_iff)
    then have "y \<in> set regs" "registration_id y = registration_id x"
      by (auto dest: find_SomeD)
    with inj assms(2) have "y = x" by (auto dest: inj_onD)
    with y True show ?thesis by simp
  next
    case False
    have "\<not> (\<exists>y \<in> set (filter (\<lambda>r. Registration.event_id r = eid) regs).
        registration_id y = registration_id x \<and> is_active y)"
    proof
      assume "\<exists>y \<in> set (filter (\<lambda>r. Registration.event_id r = eid) regs).
        registration_id y = registration_id x \<and> is_active y"
      then obtain y where y: "y \<in> set regs" "Registration.event_id y = eid"
        "registration_id y = registration_id x" "is_active y" by auto
      with inj assms(2) have "y = x" by (auto dest: inj_onD)
      with y False show False by simp
    qed
    with False show ?thesis by (auto simp add: find_None_iff)
  qed
qed

lemma bulk_cancel_event_registrations_eq:
  assumes "unique_registration_ids s"
  shows "bulk_cancel_event_registrations clk s eid reason =
     (s\<lparr>registrations :=
          map (\<lambda>r. if Registration.event_id r = eid \<and> is_active r
                    then cancel r reason (now_iso clk) else r) (registrations s)\<rparr>,
      int (length (filter (\<lambda>r. Registration.event_id r = eid \<and> is_active r) (registrations s))))"
proof -
  have d: "distinct (map registration_id (registrations s))"
    using assms by (simp add: unique_registration_ids_def)
  then have d': "distinct (map registration_id (get_event_registrations s eid))"
    by (simp add: get_event_registrations_def distinct_map_filter)
  have m: "map (\<lambda>x. case find (\<lambda>r. registration_id r = registration_id x \<and> is_active r)
                         (get_event_registrations s eid) of
                     Some r \<Rightarrow> cancel r reason (now_iso clk) | None \<Rightarrow> x) (registrations s) =
        map (\<lambda>r. if Registration.event_id r = eid \<and> is_active r
                    then cancel r reason (now_iso clk) else r) (registrations s)"
    by (rule map_cong) (simp_all add: get_event_registrations_def find_own_registration [OF d])
  have c: "filter is_active (get_event_registrations s eid) =
      filter (\<lambda>r. Registration.event_id r = eid \<and> is_active r) (registrations s)"
    by (simp add: get_event_registrations_def conj_commute)
  show ?thesis
    unfolding bulk_cancel_event_registrations_def bulk_cancel_loop_map [OF d' d] m c by simp
qed

subsection \<open>Further auxiliary facts\<close>

lemma is_terminal_iff: "is_terminal r \<longleftrightarrow> \<not> is_active r"
  by (cases "Registration.status r") (simp_all add: is_terminal_def is_active_def)

lemma registrations_save_event [simp]: "registrations (save_event s e) = registrations s"
  by (simp add: save_event_def)

lemma events_save_registration [simp]: "events (save_registration s r) = events s"
  by (simp add: save_registration_def)

lemma cancel_registration_registrations:
  assumes "unique_registration_ids s"
    and "get_registration s eid uid = Some r" and "is_active r"
  shows "registrations (fst (cancel_registration clk s eid uid reason)) =
     map (\<lambda>x. if registration_id x = registration_id r
               then cancel r reason (now_iso clk) else x) (registrations s)"
  using assms
  by (simp add: cancel_registration_def Let_def unique_registration_ids_def
      save_registration_def save_registration_loop_distinct split: option.splits)

lemma mark_attendance_loop_distinct:
  "distinct (map registration_id regs) \<Longrightarrow>
   mark_attendance_loop clk rid attended regs =
     (if rid \<in> registration_id ` set regs
      then Some (map (\<lambda>x. if registration_id x = rid
                           then (if attended then mark_attended x (now_iso clk)
                                 else mark_no_show x (now_iso clk))
                           else x) regs)
      else None)"
proof (induction regs)
  case Nil
  then show ?case by simp
next
  case (Cons x xs)
  show ?case
  proof (cases "registration_id x = rid")
    case True
    with Cons.prems have "\<forall>y \<in> set xs. registration_id y \<noteq> rid"
      by (metis distinct.simps(2) image_eqI list.simps(9) set_map)
    then have "map (\<lambda>x. if registration_id x = rid
                           then (if attended then mark_attended x (now_iso clk)
                                 else mark_no_show x (now_iso clk))
                           else x) xs = xs"
      by (simp add: map_idI)
    with True show ?thesis by simp
  next
    case False
    with Cons show ?thesis by simp
  qed
qed

lemma find_save_event_loop:
  "find (\<lambda>e. Event.event_id e = eid) es = Some ev \<Longrightarrow> Event.event_id ev' = eid \<Longrightarrow>
   find (\<lambda>e. Event.event_id e = eid) (save_event_loop ev' es) = Some ev'"
  by (induction es) (auto split: if_splits)

lemma get_event_by_id_save_event:
  "get_event_by_id s eid = Some ev \<Longrightarrow> Event.event_id ev' = eid \<Longrightarrow>
   get_event_by_id (save_event s ev') eid = Some ev'"
  by (simp add: get_event_by_id_def save_event_def find_save_event_loop)

lemma get_event_by_id_event_id: "get_event_by_id s eid = Some ev \<Longrightarrow> Event.event_id ev = eid"
  by (auto simp: get_event_by_id_def dest: find_SomeD)

lemma get_registration_not_active:
  "active_registrations s eid uid = [] \<Longrightarrow> get_registration s eid uid = Some r \<Longrightarrow> \<not> is_active r"
  by (auto simp: active_registrations_def get_registration_def filter_empty_conv dest!: find_SomeD)

lemma find_append:
  "find P (xs @ ys) = (case find P xs of None \<Rightarrow> find P ys | Some x \<Rightarrow> Some x)"
  by (induction xs) auto

subsection \<open>Bulk cancellation\<close>

text \<open>
  Claim C7, as stated for every state, fails in a file where two entries carry the same
  registration id: the cancelled copy of the event's registration is written over the
  first entry of that id, which belongs to another event, and the event's own registration
  stays confirmed.
\<close>

theorem bulk_cancel_shared_id:
  "registrations store_dup = [reg_x_e2, reg_x_e1] \<and>
   Registration.event_id reg_x_e2 = ''e2'' \<and>
   Registration.event_id reg_x_e1 = ''e1'' \<and> is_active reg_x_e1 \<and>
   registrations (fst (bulk_cancel_event_registrations clk0 store_dup ''e1'' ''event deleted'')) =
     [cancel reg_x_e1 ''event deleted'' (now_iso clk0), reg_x_e1]"
  by (simp add: store_dup_def reg_x_e1_def reg_x_e2_def Registration_init_def is_active_def
      bulk_cancel_event_registrations_def get_event_registrations_def save_registration_def
      cancel_def)

text \<open>
  Claim C7, amended. In every state whose registration ids are pairwise distinct,
  \<open>bulk_cancel_event_registrations\<close> returns the number of registrations of the event that
  were active (pending or confirmed), sets exactly those to cancelled with the reason in
  their notes, leaves every other registration as it was, and leaves the events, hence
  every \<open>current_attendees\<close>, unchanged.
\<close>

theorem bulk_cancel_event_registrations_result:
  assumes "unique_registration_ids s"
    and "bulk_cancel_event_registrations clk s eid reason = (s', cancelled_count)"
  shows "cancelled_count =
           int (length (filter (\<lambda>r. Registration.event_id r = eid \<and> is_active r)
                  (registrations s))) \<and>
         length (registrations s') = length (registrations s) \<and>
         (\<forall>i < length (registrations s).
            if Registration.event_id (registrations s ! i) = eid \<and> is_active (registrations s ! i)
            then registrations s' ! i = cancel (registrations s ! i) reason (now_iso clk) \<and>
                 Registration.status (registrations s' ! i) = RegistrationStatus.CANCELLED \<and>
                 notes_text (registrations s' ! i) = reason
            else registrations s' ! i = registrations s ! i) \<and>
         events s' = events s"
  using assms(2) unfolding bulk_cancel_event_registrations_eq [OF assms(1)]
  by (auto simp add: cancel_def)

theorem bulk_cancel_event_registrations_result_witness:
  "unique_registration_ids store_three \<and>
   bulk_cancel_event_registrations clk0 store_three ''e1'' ''event deleted'' =
     (store_three\<lparr>registrations :=
        [reg0_cancelled, cancel reg_b ''event deleted'' (now_iso clk0), reg_c]\<rparr>, 1) \<and>
   (1::int) = int (length (filter (\<lambda>r. Registration.event_id r = ''e1'' \<and> is_active r)
                  (registrations store_three))) \<and>
   events (store_three\<lparr>registrations :=
        [reg0_cancelled, cancel reg_b ''event deleted'' (now_iso clk0), reg_c]\<rparr>) =
     events store_three"
proof -
  have u: "unique_registration_ids store_three"
    by (simp add: unique_registration_ids_def store_three_def reg0_cancelled_def reg0_def
        reg_b_def reg_c_def Registration_init_def cancel_def)
  have b: "bulk_cancel_event_registrations clk0 store_three ''e1'' ''event deleted'' =
     (store_three\<lparr>registrations :=
        [reg0_cancelled, cancel reg_b ''event deleted'' (now_iso clk0), reg_c]\<rparr>, 1)"
    by (simp add: bulk_cancel_event_registrations_def get_event_registrations_def
        store_three_def reg0_cancelled_def reg0_def reg_b_def reg_c_def Registration_init_def
        cancel_def is_active_def save_registration_def)
  from bulk_cancel_event_registrations_result [OF u b] u b show ?thesis by blast
qed

subsection \<open>Terminal statuses\<close>

text \<open>
  Claim C4, as stated, fails for \<open>mark_attendance\<close>: it marks a cancelled registration
  as attended.
\<close>

theorem mark_attendance_leaves_cancelled:
  "registrations store_cancelled = [reg0_cancelled] \<and> is_terminal reg0_cancelled \<and>
   registration_id reg0_cancelled = ''reg_a'' \<and>
   map Registration.status
     (registrations (fst (mark_attendance clk0 store_cancelled ''reg_a'' True))) = [ATTENDED]"
  by (simp add: store_cancelled_def reg0_cancelled_def reg0_def Registration_init_def cancel_def
      is_terminal_def mark_attendance_def mark_attended_def)

text \<open>
  Claim C4, amended. In a state whose registration ids are pairwise distinct,
  \<open>cancel_registration\<close> and \<open>bulk_cancel_event_registrations\<close> never change a registration
  that is cancelled, attended or no-show: for these two operations the three statuses are
  terminal. \<open>mark_attendance\<close> does not look at the status: it sets the registration of
  the given id to attended or no-show whatever its status was.
\<close>

theorem terminal_under_cancellation:
  assumes "unique_registration_ids s" and "i < length (registrations s)"
  shows "(is_terminal (registrations s ! i) \<longrightarrow>
          registrations (fst (cancel_registration clk s eid uid reason)) ! i = registrations s ! i \<and>
          registrations (fst (bulk_cancel_event_registrations clk s eid reason)) ! i =
            registrations s ! i) \<and>
         (registration_id (registrations s ! i) = rid \<longrightarrow>
          Registration.status (registrations (fst (mark_attendance clk s rid attended)) ! i) =
            (if attended then ATTENDED else NO_SHOW))"
proof -
  let ?regs = "registrations s"
  have d: "distinct (map registration_id ?regs)"
    using assms(1) by (simp add: unique_registration_ids_def)
  have mem: "?regs ! i \<in> set ?regs" using assms(2) by simp
  have c: "registrations (fst (cancel_registration clk s eid uid reason)) ! i = ?regs ! i"
    if t: "is_terminal (?regs ! i)"
  proof (cases "get_registration s eid uid")
    case None
    then show ?thesis by (simp add: cancel_registration_def)
  next
    case (Some r)
    show ?thesis
    proof (cases "is_active r")
      case False
      with Some show ?thesis by (simp add: cancel_registration_def)
    next
      case True
      from Some have r: "r \<in> set ?regs"
        by (auto simp: get_registration_def dest: find_SomeD)
      have "registration_id (?regs ! i) \<noteq> registration_id r"
      proof
        assume "registration_id (?regs ! i) = registration_id r"
        with d r mem have "?regs ! i = r" by (auto simp: distinct_map dest: inj_onD)
        with t True show False by (simp add: is_terminal_iff)
      qed
      then show ?thesis
        using assms(2) by (simp add: cancel_registration_registrations [OF assms(1) Some True])
    qed
  qed
  have b: "registrations (fst (bulk_cancel_event_registrations clk s eid reason)) ! i = ?regs ! i"
    if t: "is_terminal (?regs ! i)"
    using t assms(2) by (simp add: bulk_cancel_event_registrations_eq [OF assms(1)] is_terminal_iff)
  have m: "Registration.status (registrations (fst (mark_attendance clk s rid attended)) ! i) =
            (if attended then ATTENDED else NO_SHOW)"
    if "registration_id (?regs ! i) = rid"
    using that mem assms(2)
    by (auto simp add: mark_attendance_def mark_attendance_loop_distinct [OF d]
        mark_attended_def mark_no_show_def)
  from c b m show ?thesis by blast
qed

theorem terminal_under_cancellation_witness:
  "unique_registration_ids store_three \<and> (0::nat) < length (registrations store_three) \<and>
   is_terminal (registrations store_three ! 0) \<and>
   registration_id (registrations store_three ! 0) = ''reg_a'' \<and>
   registrations (fst (cancel_registration clk0 store_three ''e1'' ''u2'' ''ill'')) ! 0 =
     registrations store_three ! 0 \<and>
   registrations (fst (bulk_cancel_event_registrations clk0 store_three ''e1'' ''ill'')) ! 0 =
     registrations store_three ! 0 \<and>
   Registration.status (registrations (fst (mark_attendance clk0 store_three ''reg_a'' False)) ! 0) =
     NO_SHOW"
proof -
  have u: "unique_registration_ids store_three"
    by (simp add: unique_registration_ids_def store_three_def reg0_cancelled_def reg0_def
        reg_b_def reg_c_def Registration_init_def cancel_def)
  have l: "(0::nat) < length (registrations store_three)"
    by (simp add: store_three_def)
  have t: "is_terminal (registrations store_three ! 0)"
    by (simp add: store_three_def reg0_cancelled_def cancel_def is_terminal_def)
  have i: "registration_id (registrations store_three ! 0) = ''reg_a''"
    by (simp add: store_three_def reg0_cancelled_def reg0_def cancel_def Registration_init_def)
  note c = terminal_under_cancellation [OF u l, where clk = clk0 and eid = "''e1''" and uid = "''u2''" and reason = "''ill''"
      and rid = "''reg_a''" and attended = False]
  from c t i u l show ?thesis by simp
qed

subsection \<open>Registering at the capacity boundary\<close>

text \<open>
  \<open>register_for_event\<close> has a branch of its own for the full event, with the event-full
  message, behind the availability check. \<open>is_available_for_registration\<close> makes the
  same capacity test on the same object first, so the branch is never taken: no call
  ends in the event-full failure.
\<close>

lemma register_for_event_never_EventFull:
  "snd (register_for_event clk s eid uid new_id) \<noteq> Inl EventFull"
  by (auto simp add: register_for_event_def is_available_for_registration_def is_full_def
      Let_def split: option.splits)

text \<open>
  Claim C3. Registering for an active event whose \<open>current_attendees\<close> equals
  \<open>max_capacity\<close> fails with the event-full outcome, as distinct from the not-available
  one; and registering for an active future-dated event with one place left, by a user
  with no active registration, succeeds and fills the event. The code breaks the first
  half: for the active example event with its one place taken, \<open>register_for_event\<close>
  returns the not-available failure, not the event-full one.
\<close>

theorem full_event_not_available:
  "get_event_by_id store_full ''e1'' = Some event_full \<and> Event.status event_full = ACTIVE \<and>
   current_attendees event_full = max_capacity event_full \<and>
   snd (register_for_event clk0 store_full ''e1'' ''u1'' ''reg_a'') = Inl EventNotAvailable \<and>
   snd (register_for_event clk0 store_full ''e1'' ''u1'' ''reg_a'') \<noteq> Inl EventFull"
  by (simp add: register_for_event_def get_event_by_id_def store_full_def event_full_def
      event0_def Event_init_def is_available_for_registration_def)

text \<open>
  With one place left the registration goes through: for an active event dated in the
  future, one attendee short of its capacity, and a user with no active registration for
  it, \<open>register_for_event\<close> returns the new confirmed registration, appends it to the
  file, and stores the event with \<open>current_attendees\<close> equal to \<open>max_capacity\<close>.
\<close>

lemma register_for_event_last_slot:
  assumes ev: "get_event_by_id s eid = Some ev" and "Event.status ev = ACTIVE"
    and one: "current_attendees ev + 1 = max_capacity ev"
    and "datetime_in_future clk ev" and "active_registrations s eid uid = []"
  shows "register_for_event clk s eid uid new_id =
           (save_event
              (s\<lparr>registrations :=
                   registrations s @ [Registration_init new_id eid uid (now_iso clk)]\<rparr>)
              (ev\<lparr>current_attendees := max_capacity ev, Event.updated_at := now_iso clk\<rparr>),
            Inr (Registration_init new_id eid uid (now_iso clk))) \<and>
         get_event_by_id (fst (register_for_event clk s eid uid new_id)) eid =
           Some (ev\<lparr>current_attendees := max_capacity ev, Event.updated_at := now_iso clk\<rparr>) \<and>
         is_full (ev\<lparr>current_attendees := max_capacity ev, Event.updated_at := now_iso clk\<rparr>)"
proof -
  let ?r = "Registration_init new_id eid uid (now_iso clk)"
  let ?s1 = "s\<lparr>registrations := registrations s @ [?r]\<rparr>"
  let ?ev' = "ev\<lparr>current_attendees := max_capacity ev, Event.updated_at := now_iso clk\<rparr>"
  from one have less: "current_attendees ev < max_capacity ev" by simp
  have avail: "is_available_for_registration clk ev"
    using assms less by (auto simp: is_available_for_registration_def datetime_in_future_def
        split: option.splits)
  have dup: "\<not> (case get_registration s eid uid of None \<Rightarrow> False | Some r \<Rightarrow> is_active r)"
    using assms by (auto split: option.splits dest: get_registration_not_active)
  have add: "fst (add_attendee clk ev) = ?ev'"
    using less one by (simp add: add_attendee_def)
  have reg: "register_for_event clk s eid uid new_id = (save_event ?s1 ?ev', Inr ?r)"
    using ev avail dup less add by (simp add: register_for_event_def is_full_def Let_def)
  have ev1: "get_event_by_id ?s1 eid = Some ev"
    using ev by (simp add: get_event_by_id_def)
  have id': "Event.event_id ?ev' = eid"
    using get_event_by_id_event_id [OF ev] by simp
  have "get_event_by_id (save_event ?s1 ?ev') eid = Some ?ev'"
    by (rule get_event_by_id_save_event [OF ev1 id'])
  moreover have "is_full ?ev'" by (simp add: is_full_def)
  ultimately show ?thesis using reg by simp
qed

lemma register_for_event_last_slot_example:
  "fst (register_for_event clk0 store_last_slot ''e1'' ''u1'' ''reg_b'') =
     \<lparr>events = [event_last_slot\<lparr>current_attendees := 1, Event.updated_at := now_iso clk0\<rparr>],
      registrations = [reg0_cancelled, Registration_init ''reg_b'' ''e1'' ''u1'' (now_iso clk0)]\<rparr>"
proof -
  have h: "get_event_by_id store_last_slot ''e1'' = Some event_last_slot"
    "Event.status event_last_slot = ACTIVE"
    "current_attendees event_last_slot + 1 = max_capacity event_last_slot"
    "datetime_in_future clk0 event_last_slot"
    "active_registrations store_last_slot ''e1'' ''u1'' = []"
    by (simp_all add: get_event_by_id_def store_last_slot_def event_last_slot_def event0_def
        Event_init_def datetime_in_future_def clk0_def active_registrations_def
        reg0_cancelled_def cancel_def is_active_def)
  have m: "max_capacity event_last_slot = 1" "Event.event_id event_last_slot = ''e1''"
    by (simp_all add: event_last_slot_def event0_def Event_init_def)
  from register_for_event_last_slot [OF h, of "''reg_b''"] show ?thesis
    by (simp add: m save_event_def store_last_slot_def)
qed

subsection \<open>Registering again after a cancellation\<close>

text \<open>
  \<open>get_registration\<close> returns the first entry of the pair \<open>(event, user)\<close>, whatever its
  status. Once a user has registered and cancelled, that first entry is the cancelled one
  for ever: every later registration passes the duplicate check, and no later registration
  can be cancelled.

  Claim C1. Uniqueness: starting from a state with at most one active registration per
  \<open>(event, user)\<close>, no sequence of \<open>register_for_event\<close>, \<open>cancel_registration\<close>,
  \<open>bulk_cancel_event_registrations\<close> and \<open>mark_attendance\<close> leaves two active registrations
  of one pair. The code breaks it: from the empty registrations file, register, cancel,
  register, register leaves two confirmed registrations of \<open>(e1, u1)\<close>.
\<close>

theorem reregistration_breaks_uniqueness:
  "registrations store0 = [] \<and>
   length (active_registrations
     (run clk0 store0
        [Register ''e1'' ''u1'' ''reg_a'', Cancel ''e1'' ''u1'' ''changed plans'',
         Register ''e1'' ''u1'' ''reg_b'', Register ''e1'' ''u1'' ''reg_c''])
     ''e1'' ''u1'') = 2"
  by (simp add: store0_def event0_def Event_init_def clk0_def active_registrations_def
      register_for_event_def cancel_registration_def get_event_by_id_def get_registration_def
      is_available_for_registration_def is_full_def is_active_def Registration_init_def
      add_attendee_def remove_attendee_def save_event_def save_registration_def cancel_def
      Let_def)

text \<open>
  Claim C6. Round trip: wherever \<open>register_for_event\<close> succeeds, cancelling right after
  succeeds and restores \<open>current_attendees\<close>. The code breaks it for a user whose earlier
  registration was cancelled: registering succeeds, the cancellation that follows is
  refused as already cancelled, and the event keeps the added attendee.
\<close>

theorem cancel_after_reregistration_refused:
  "(let s1 = fst (register_for_event clk0 store_cancelled ''e1'' ''u1'' ''reg_b'');
        s2 = fst (cancel_registration clk0 s1 ''e1'' ''u1'' ''again'')
    in snd (register_for_event clk0 store_cancelled ''e1'' ''u1'' ''reg_b'') =
         Inr (Registration_init ''reg_b'' ''e1'' ''u1'' (now_iso clk0)) \<and>
       snd (cancel_registration clk0 s1 ''e1'' ''u1'' ''again'') = Inl AlreadyCancelled \<and>
       map current_attendees (events store_cancelled) = [0] \<and>
       map current_attendees (events s2) = [1])"
  by (simp add: store_cancelled_def reg0_cancelled_def reg0_def event0_def Event_init_def
      clk0_def register_for_event_def cancel_registration_def get_event_by_id_def
      get_registration_def is_available_for_registration_def is_full_def is_active_def
      Registration_init_def add_attendee_def remove_attendee_def save_event_def
      save_registration_def cancel_def Let_def)

text \<open>
  For a user with no earlier entry for the event, and an event whose attendee count is
  not negative, the round trip holds.
\<close>

lemma register_then_cancel_first_registration:
  assumes none: "get_registration s eid uid = None"
    and ev: "get_event_by_id s eid = Some ev" and nonneg: "0 \<le> current_attendees ev"
    and reg: "register_for_event clk s eid uid new_id = (s1, Inr r)"
  shows "\<exists>s2 ev2. cancel_registration clk' s1 eid uid reason = (s2, Inr ()) \<and>
           get_event_by_id s2 eid = Some ev2 \<and> current_attendees ev2 = current_attendees ev"
proof -
  let ?r = "Registration_init new_id eid uid (now_iso clk)"
  let ?s0 = "s\<lparr>registrations := registrations s @ [?r]\<rparr>"
  let ?ev1 = "fst (add_attendee clk ev)"
  from reg ev have less: "current_attendees ev < max_capacity ev"
    by (auto simp: register_for_event_def is_full_def split: if_splits)
  from reg ev have s1: "s1 = save_event ?s0 ?ev1"
    by (auto simp: register_for_event_def Let_def split: if_splits)
  have id: "Event.event_id ev = eid" by (rule get_event_by_id_event_id [OF ev])
  have ev0: "get_event_by_id ?s0 eid = Some ev" using ev by (simp add: get_event_by_id_def)
  have ev1: "get_event_by_id s1 eid = Some ?ev1"
    unfolding s1 by (rule get_event_by_id_save_event [OF ev0]) (simp add: add_attendee_def id)
  have g: "get_registration s1 eid uid = Some ?r"
    using none by (simp add: s1 get_registration_def save_event_def find_append Registration_init_def)
  have act: "is_active ?r" by (simp add: is_active_def Registration_init_def)
  let ?s1' = "save_registration s1 (cancel ?r reason (now_iso clk'))"
  let ?ev2 = "fst (remove_attendee clk' ?ev1)"
  have ev1': "get_event_by_id ?s1' eid = Some ?ev1"
    using ev1 by (simp add: get_event_by_id_def save_registration_def)
  have c: "cancel_registration clk' s1 eid uid reason = (save_event ?s1' ?ev2, Inr ())"
    using g act ev1' by (simp add: cancel_registration_def Let_def)
  have "get_event_by_id (save_event ?s1' ?ev2) eid = Some ?ev2"
    by (rule get_event_by_id_save_event [OF ev1']) (simp add: remove_attendee_def add_attendee_def id)
  moreover have "current_attendees ?ev2 = current_attendees ev"
    using less nonneg by (simp add: remove_attendee_def add_attendee_def)
  ultimately show ?thesis using c by blast
qed

text \<open>
  Claim C10. With an active registration for \<open>(eid, uid)\<close> and no event of that id,
  \<open>cancel_registration\<close> still succeeds. The code breaks it when the active registration
  stands behind an earlier cancelled one: the call is refused as already cancelled and
  the active registration stays.
\<close>

theorem cancel_without_event_refused:
  "active_registrations store_orphan ''e1'' ''u1'' = [reg_again] \<and>
   get_event_by_id store_orphan ''e1'' = None \<and>
   cancel_registration clk0 store_orphan ''e1'' ''u1'' ''event gone'' =
     (store_orphan, Inl AlreadyCancelled)"
  by (simp add: store_orphan_def reg_again_def reg0_cancelled_def reg0_def
      active_registrations_def get_event_by_id_def cancel_registration_def
      get_registration_def is_active_def Registration_init_def cancel_def)

text \<open>
  When the entry \<open>get_registration\<close> fetches is the active one, the cancellation succeeds
  without an event: the registration is saved cancelled and the events are not touched.
\<close>

lemma cancel_registration_missing_event:
  assumes "get_registration s eid uid = Some r" and "is_active r"
    and "get_event_by_id s eid = None"
  shows "cancel_registration clk s eid uid reason =
     (save_registration s (cancel r reason (now_iso clk)), Inr ())"
  using assms by (simp add: cancel_registration_def Let_def get_event_by_id_def save_registration_def)

end
